theory Spec2Isabelle
  imports Complex_Main "HOL-Library.AList" "HOL-Library.Log_Nat"
begin

section \<open>Walking-network accessibility: the graph and the ego-network query\<close>

text \<open>
  The two accessibility routines of the repository
  (\<^verbatim>\<open>spatial_analysis/network_analysis.py\<close> and
  \<^verbatim>\<open>spatial_analysis/accessibility_analysis.py\<close>) work on a street network held as a
  networkx multi-digraph: nodes carrying planar coordinates, directed edges
  \<open>(u, v, key)\<close> carrying a \<^verbatim>\<open>length\<close> attribute in metres. OSMnx puts a length
  on every edge, so the value networkx takes for an absent attribute plays no part.
  Lengths, distances and budgets are reals, node identifiers integers, and the two
  dictionaries of a graph lists in insertion order. The search is given twice: with exact
  sums, and with the binary64 sums of Python.
\<close>

type_synonym node = int

record node_data =
  node_id :: node
  node_x :: real
  node_y :: real

record edge =
  edge_u :: node
  edge_v :: node
  edge_key :: nat
  edge_length :: real

record graph =
  nodes :: "node_data list"
  edges :: "edge list"

datatype error =
    NodeNotFound node
  | ValueError
  | FileNotFoundError

definition node_ids :: "graph \<Rightarrow> node list" where
  "node_ids G = map node_id (nodes G)"

subsection \<open>The bounded shortest-path search behind \<^verbatim>\<open>nx.ego_graph\<close>\<close>

text \<open>
  \<^verbatim>\<open>nx.ego_graph(G, n, radius=r, distance='length')\<close> runs
  \<^verbatim>\<open>single_source_dijkstra(G, n, cutoff=r, weight='length')\<close> and returns the copy of
  the subgraph induced by the keys of the distance dictionary. The search is networkx's
  \<^verbatim>\<open>_dijkstra_multisource\<close> with one source:
  \<^verbatim>\<open>
    seen[source] = 0; push(fringe, (0, next(c), source))
    while fringe:
        (d, _, v) = pop(fringe)
        if v in dist: continue
        dist[v] = d
        for u, e in G_succ[v].items():
            cost = weight(v, u, e)
            vu_dist = dist[v] + cost
            if cutoff is not None:
                if vu_dist > cutoff: continue
            if u in dist:
                if vu_dist < dist[u]: raise ValueError('Contradictory paths found:', 'negative weights?')
            elif u not in seen or vu_dist < seen[u]:
                seen[u] = vu_dist
                push(fringe, (vu_dist, next(c), u))
    return dist
  \<close>
  The bookkeeping of the paths themselves does not influence \<^verbatim>\<open>dist\<close> and is left out.
\<close>

definition out_edges :: "graph \<Rightarrow> node \<Rightarrow> edge list" where
  "out_edges G v = filter (\<lambda>e. edge_u e = v) (edges G)"

text \<open>The keys of \<^verbatim>\<open>G_succ[v]\<close>: the distinct successors in order of first insertion.\<close>

definition successors :: "graph \<Rightarrow> node \<Rightarrow> node list" where
  "successors G v = rev (remdups (rev (map edge_v (out_edges G v))))"

text \<open>On a multigraph the weight of a step is the least length among the parallel edges.\<close>

definition weight :: "graph \<Rightarrow> node \<Rightarrow> node \<Rightarrow> real" where
  "weight G v u = min_list (map edge_length (filter (\<lambda>e. edge_v e = u) (out_edges G v)))"

type_synonym entry = "real \<times> nat \<times> node"

text \<open>The heap orders its triples lexicographically; the counter is unique, so the node
  is never compared.\<close>

definition entry_dist :: "entry \<Rightarrow> real" where
  "entry_dist x = fst x"

definition entry_node :: "entry \<Rightarrow> node" where
  "entry_node x = snd (snd x)"

fun entry_le :: "entry \<Rightarrow> entry \<Rightarrow> bool" where
  "entry_le (d1, c1, _) (d2, c2, _) = (d1 < d2 \<or> (d1 = d2 \<and> c1 \<le> c2))"

fun heap_min :: "entry \<Rightarrow> entry list \<Rightarrow> entry" where
  "heap_min m [] = m"
| "heap_min m (x # xs) = heap_min (if entry_le m x then m else x) xs"

definition heap_top :: "entry list \<Rightarrow> entry" where
  "heap_top fringe = heap_min (hd fringe) (tl fringe)"

definition heap_rest :: "entry list \<Rightarrow> entry list" where
  "heap_rest fringe = remove1 (heap_top fringe) fringe"

record dijkstra_state =
  dist_of :: "node \<rightharpoonup> real"
  seen_of :: "node \<rightharpoonup> real"
  fringe_of :: "entry list"
  count_of :: nat

definition relax :: "graph \<Rightarrow> real \<Rightarrow> node \<Rightarrow> real \<Rightarrow> node \<Rightarrow> dijkstra_state
    \<Rightarrow> error + dijkstra_state" where
  "relax G cutoff v d u st =
     (let vu_dist = d + weight G v u in
      if vu_dist > cutoff then Inr st
      else case dist_of st u of
        Some u_dist \<Rightarrow> if vu_dist < u_dist then Inl ValueError else Inr st
      | None \<Rightarrow>
          (if (case seen_of st u of None \<Rightarrow> True | Some s \<Rightarrow> vu_dist < s)
           then Inr (st\<lparr>seen_of := (seen_of st)(u \<mapsto> vu_dist),
                        fringe_of := (vu_dist, count_of st, u) # fringe_of st,
                        count_of := Suc (count_of st)\<rparr>)
           else Inr st))"

fun relax_all :: "graph \<Rightarrow> real \<Rightarrow> node \<Rightarrow> real \<Rightarrow> node list \<Rightarrow> dijkstra_state
    \<Rightarrow> error + dijkstra_state" where
  "relax_all G cutoff v d [] st = Inr st"
| "relax_all G cutoff v d (u # us) st =
     (case relax G cutoff v d u st of
        Inl e \<Rightarrow> Inl e
      | Inr st' \<Rightarrow> relax_all G cutoff v d us st')"

definition fringe_nodes :: "dijkstra_state \<Rightarrow> node set" where
  "fringe_nodes st = entry_node ` set (fringe_of st)"

definition pending :: "graph \<Rightarrow> dijkstra_state \<Rightarrow> node set" where
  "pending G st = (edge_v ` set (edges G) \<union> fringe_nodes st) - dom (dist_of st)"

text \<open>
  The loop pops the least entry until the heap is empty. It terminates: every pass either
  discards a stale entry or settles a node that was pending.
\<close>

lemma heap_min_in: "heap_min m xs \<in> set (m # xs)"
  by (induction xs arbitrary: m) auto

lemma heap_top_in: "fringe \<noteq> [] \<Longrightarrow> heap_top fringe \<in> set fringe"
  using heap_min_in [of "hd fringe" "tl fringe"] by (cases fringe) (auto simp: heap_top_def)

lemma set_heap_rest: "set (heap_rest fringe) \<subseteq> set fringe"
  by (simp add: heap_rest_def set_remove1_subset)

lemma length_heap_rest: "fringe \<noteq> [] \<Longrightarrow> length (heap_rest fringe) < length fringe"
proof -
  assume ne: "fringe \<noteq> []"
  then have "length (heap_rest fringe) = length fringe - 1"
    using heap_top_in [of fringe] by (simp add: heap_rest_def length_remove1)
  moreover have "0 < length fringe" using ne by simp
  ultimately show ?thesis by linarith
qed

lemma relax_dist: "relax G cutoff v d u st = Inr st' \<Longrightarrow> dist_of st' = dist_of st"
  by (auto simp: relax_def Let_def split: if_splits option.splits)

lemma relax_fringe_nodes:
  "relax G cutoff v d u st = Inr st' \<Longrightarrow> fringe_nodes st' \<subseteq> insert u (fringe_nodes st)"
  by (auto simp: relax_def Let_def fringe_nodes_def entry_node_def split: if_splits option.splits)

lemma relax_all_dist: "relax_all G cutoff v d us st = Inr st' \<Longrightarrow> dist_of st' = dist_of st"
  by (induction us arbitrary: st) (auto split: sum.splits dest: relax_dist)

lemma relax_all_fringe_nodes:
  "relax_all G cutoff v d us st = Inr st' \<Longrightarrow> fringe_nodes st' \<subseteq> set us \<union> fringe_nodes st"
proof (induction us arbitrary: st)
  case Nil
  then show ?case by simp
next
  case (Cons u us)
  then obtain st1 where r: "relax G cutoff v d u st = Inr st1"
    and ra: "relax_all G cutoff v d us st1 = Inr st'"
    by (auto split: sum.splits)
  from Cons.IH [OF ra] relax_fringe_nodes [OF r] show ?case by auto
qed

lemma set_successors: "set (successors G v) \<subseteq> edge_v ` set (edges G)"
  by (auto simp: successors_def out_edges_def)

lemma finite_pending: "finite (pending G st)"
  by (simp add: pending_def fringe_nodes_def)

function dijkstra_loop :: "graph \<Rightarrow> real \<Rightarrow> dijkstra_state \<Rightarrow> error + (node \<rightharpoonup> real)" where
  "dijkstra_loop G cutoff st =
     (if fringe_of st = [] then Inr (dist_of st)
      else
        let d = entry_dist (heap_top (fringe_of st));
            v = entry_node (heap_top (fringe_of st));
            rest = heap_rest (fringe_of st)
        in if dist_of st v \<noteq> None then dijkstra_loop G cutoff (st\<lparr>fringe_of := rest\<rparr>)
           else
             (case relax_all G cutoff v d (successors G v)
                     (st\<lparr>dist_of := (dist_of st)(v \<mapsto> d), fringe_of := rest\<rparr>) of
                Inl e \<Rightarrow> Inl e
              | Inr st' \<Rightarrow> dijkstra_loop G cutoff st'))"
  by pat_completeness auto
termination
proof (relation "measures [\<lambda>(G, cutoff, st). card (pending G st),
                           \<lambda>(G, cutoff, st). length (fringe_of st)]", goal_cases)
  case 1
  show ?case by simp
next
  case (2 G cutoff st d v rest)
  have "pending G (st\<lparr>fringe_of := rest\<rparr>) \<subseteq> pending G st"
    using set_heap_rest [of "fringe_of st"] 2 by (auto simp: pending_def fringe_nodes_def)
  then have "card (pending G (st\<lparr>fringe_of := rest\<rparr>)) \<le> card (pending G st)"
    by (intro card_mono finite_pending)
  moreover have "length rest < length (fringe_of st)"
    using 2 length_heap_rest by simp
  ultimately show ?case by auto
next
  case (3 G cutoff st d v rest st')
  let ?st1 = "st\<lparr>dist_of := (dist_of st)(v \<mapsto> d), fringe_of := rest\<rparr>"
  have v_in: "v \<in> fringe_nodes st"
    using heap_top_in [of "fringe_of st"] 3 
    by (force simp: fringe_nodes_def entry_node_def)
  have d': "dist_of st' = (dist_of st)(v \<mapsto> d)"
    using relax_all_dist 3 by fastforce
  have "fringe_nodes st' \<subseteq> set (successors G v) \<union> fringe_nodes ?st1"
    using relax_all_fringe_nodes 3 by blast
  moreover have "fringe_nodes ?st1 \<subseteq> fringe_nodes st"
    using set_heap_rest [of "fringe_of st"] 3 by (auto simp: fringe_nodes_def)
  ultimately have "fringe_nodes st' \<subseteq> edge_v ` set (edges G) \<union> fringe_nodes st"
    using set_successors [of G v] by blast
  then have "pending G st' \<subseteq> pending G st - {v}"
    using d' by (auto simp: pending_def)
  moreover have "v \<in> pending G st"
    using v_in 3 by (auto simp: pending_def)
  ultimately have "pending G st' \<subset> pending G st" by blast
  then have "card (pending G st') < card (pending G st)"
    by (intro psubset_card_mono finite_pending)
  then show ?case by simp
qed

declare dijkstra_loop.simps [simp del]

text \<open>
  \<^verbatim>\<open>single_source_dijkstra\<close> refuses a source that is not a node of the graph and
  otherwise starts the loop from \<^verbatim>\<open>seen = {source: 0}\<close>, \<^verbatim>\<open>fringe = [(0, 0, source)]\<close>.
\<close>

definition initial_state :: "node \<Rightarrow> dijkstra_state" where
  "initial_state source =
     \<lparr>dist_of = Map.empty, seen_of = [source \<mapsto> 0],
      fringe_of = [(0, 0, source)], count_of = 1\<rparr>"

definition single_source_dijkstra :: "graph \<Rightarrow> node \<Rightarrow> real \<Rightarrow> error + (node \<rightharpoonup> real)" where
  "single_source_dijkstra G source cutoff =
     (if source \<notin> set (node_ids G) then Inl (NodeNotFound source)
      else dijkstra_loop G cutoff (initial_state source))"

text \<open>\<^verbatim>\<open>G.subgraph(sp).copy()\<close>: the nodes that are keys of \<^verbatim>\<open>sp\<close> and the edges
  between two of them. The model lists them in the order the graph holds them; networkx
  copies them in the order of the graph, or in the iteration order of the set of keys when
  that set has less than half the nodes of the graph. The two lists hold the same nodes and
  the same edges.\<close>

definition graph_subgraph :: "graph \<Rightarrow> (node \<rightharpoonup> real) \<Rightarrow> graph" where
  "graph_subgraph G sp =
     \<lparr>nodes = filter (\<lambda>n. sp (node_id n) \<noteq> None) (nodes G),
      edges = filter (\<lambda>e. sp (edge_u e) \<noteq> None \<and> sp (edge_v e) \<noteq> None) (edges G)\<rparr>"

definition ego_graph :: "graph \<Rightarrow> node \<Rightarrow> real \<Rightarrow> error + graph" where
  "ego_graph G n radius =
     (case single_source_dijkstra G n radius of
        Inl e \<Rightarrow> Inl e
      | Inr sp \<Rightarrow> Inr (graph_subgraph G sp))"

subsection \<open>The same search with binary64 sums\<close>
















section \<open>The two accessibility routines\<close>

text \<open>
  Both routines look a point up with \<^verbatim>\<open>ox.distance.nearest_nodes(G, X, Y)\<close>, which
  answers from a spatial index of the library; the look-up is a parameter of the model.
  It may fail (for instance on a graph without nodes), and it returns a node identifier.
\<close>

type_synonym poi = "real \<times> real"

type_synonym nearest_nodes = "graph \<Rightarrow> real \<Rightarrow> real \<Rightarrow> error + node"

subsection \<open>\<^verbatim>\<open>network_analysis.calculate_accessibility(G, points_of_interest)\<close>\<close>

text \<open>
  \<^verbatim>\<open>
    pois_nodes = []
    for poi in points_of_interest:
        node = ox.distance.nearest_nodes(G, poi[1], poi[0])
        pois_nodes.append(node)
    service_areas = {}
    for node in pois_nodes:
        subgraph = nx.ego_graph(G, node, radius=1200, distance='length')
        service_areas[node] = subgraph
    return service_areas
  \<close>
  The state of the routine is the graph it was given and its two local variables. A
  point of interest is a pair (latitude, longitude). The dictionary keeps its keys in
  order of first insertion; assigning to a key that is present replaces the value in
  place, which is \<^const>\<open>AList.update\<close>. An exception of a library call leaves the
  routine at once, so it is the result of the whole call.
\<close>

record na_state =
  na_graph :: graph
  pois_nodes :: "node list"
  service_areas :: "(node \<times> graph) list"

definition poi_node :: "nearest_nodes \<Rightarrow> graph \<Rightarrow> poi \<Rightarrow> error + node" where
  "poi_node nn G poi = nn G (snd poi) (fst poi)"

fun nearest_loop :: "nearest_nodes \<Rightarrow> poi list \<Rightarrow> na_state \<Rightarrow> error + na_state" where
  "nearest_loop nn [] st = Inr st"
| "nearest_loop nn (poi # rest) st =
     (case poi_node nn (na_graph st) poi of
        Inl e \<Rightarrow> Inl e
      | Inr node \<Rightarrow> nearest_loop nn rest (st\<lparr>pois_nodes := pois_nodes st @ [node]\<rparr>))"

fun service_loop :: "node list \<Rightarrow> na_state \<Rightarrow> error + na_state" where
  "service_loop [] st = Inr st"
| "service_loop (node # rest) st =
     (case ego_graph (na_graph st) node 1200 of
        Inl e \<Rightarrow> Inl e
      | Inr subgraph \<Rightarrow>
          service_loop rest (st\<lparr>service_areas := AList.update node subgraph (service_areas st)\<rparr>))"

definition calculate_accessibility_run :: "nearest_nodes \<Rightarrow> graph \<Rightarrow> poi list \<Rightarrow> error + na_state" where
  "calculate_accessibility_run nn G points_of_interest =
     (case nearest_loop nn points_of_interest
             \<lparr>na_graph = G, pois_nodes = [], service_areas = []\<rparr> of
        Inl e \<Rightarrow> Inl e
      | Inr st \<Rightarrow> service_loop (pois_nodes st) st)"

definition network_calculate_accessibility ::
    "nearest_nodes \<Rightarrow> graph \<Rightarrow> poi list \<Rightarrow> error + (node \<times> graph) list" where
  "network_calculate_accessibility nn G points_of_interest =
     (case calculate_accessibility_run nn G points_of_interest of
        Inl e \<Rightarrow> Inl e
      | Inr st \<Rightarrow> Inr (service_areas st))"

subsection \<open>\<^verbatim>\<open>accessibility_analysis.calculate_accessibility()\<close>\<close>

text \<open>
  \<^verbatim>\<open>
    graph = ox.graph_from_place(place, network_type='walk')
    center_point = Point(29.007149, 41.041224)
    walking_speed = 5  # km/h
    max_distance = walking_speed * 0.25  # 15 minutes in hours
    G_proj = ox.project_graph(graph)
    center_node = ox.distance.nearest_nodes(G_proj, center_point.x, center_point.y)
    subgraph = nx.ego_graph(G_proj, center_node, radius=max_distance*1000, distance='length')
    return {'area_covered_km2': None,
            'nodes_in_range': len(subgraph.nodes()),
            'edges_in_range': len(subgraph.edges())}
  \<close>
  Between the query and the \<^verbatim>\<open>return\<close> the routine draws the subgraph and writes the
  figure:
  \<^verbatim>\<open>
    fig, ax = ox.plot_graph(subgraph, node_size=0, edge_linewidth=0.5, ...)
    ax.scatter(...); plt.title(...); plt.legend()
    plt.savefig('outputs/maps/walking_accessibility.png')
  \<close>
  The routine has no argument. The downloaded street network, the projection of the
  library and the drawing with the writing of the file are parameters of the model. The
  drawing may raise (on a subgraph without edges, or when the directory of the file is
  missing), and then the routine returns nothing.
\<close>

record accessibility_result =
  area_covered_km2 :: "real option"
  nodes_in_range :: nat
  edges_in_range :: nat

definition center_point :: "real \<times> real" where
  "center_point = (29.007149, 41.041224)"

definition walking_speed :: real where
  "walking_speed = 5"

definition max_distance :: real where
  "max_distance = walking_speed * 0.25"

definition accessibility_calculate_accessibility ::
    "nearest_nodes \<Rightarrow> (graph \<Rightarrow> graph) \<Rightarrow> (graph \<Rightarrow> error + unit) \<Rightarrow> graph
      \<Rightarrow> error + accessibility_result" where
  "accessibility_calculate_accessibility nn project_graph plot_and_save graph =
     (let G_proj = project_graph graph in
      case nn G_proj (fst center_point) (snd center_point) of
        Inl e \<Rightarrow> Inl e
      | Inr center_node \<Rightarrow>
          (case ego_graph G_proj center_node (max_distance * 1000) of
             Inl e \<Rightarrow> Inl e
           | Inr subgraph \<Rightarrow>
               (case plot_and_save subgraph of
                  Inl e \<Rightarrow> Inl e
                | Inr done \<Rightarrow>
                    Inr \<lparr>area_covered_km2 = None,
                         nodes_in_range = length (nodes subgraph),
                         edges_in_range = length (edges subgraph)\<rparr>)))"

section \<open>Walks, well-formed graphs and the invariant of the search\<close>


definition nonneg_lengths :: "graph \<Rightarrow> bool" where
  "nonneg_lengths G = (\<forall>e \<in> set (edges G). 0 \<le> edge_length e)"








text \<open>networkx adds the endpoints of every edge to the node set.\<close>

definition wf_graph :: "graph \<Rightarrow> bool" where
  "wf_graph G = (\<forall>e \<in> set (edges G). edge_u e \<in> set (node_ids G) \<and> edge_v e \<in> set (node_ids G))"


section \<open>Example networks\<close>

definition mk_node :: "node \<Rightarrow> node_data" where
  "mk_node i = \<lparr>node_id = i, node_x = real_of_int i * 100, node_y = 0\<rparr>"

definition mk_edge :: "node \<Rightarrow> node \<Rightarrow> real \<Rightarrow> edge" where
  "mk_edge a b l = \<lparr>edge_u = a, edge_v = b, edge_key = 0, edge_length = l\<rparr>"

text \<open>The linear chain A--B--C--D (nodes 1 to 4) with three streets of 100 metres, each
  held in both directions.\<close>

definition chain :: graph where
  "chain = \<lparr>nodes = [mk_node 1, mk_node 2, mk_node 3, mk_node 4],
            edges = [mk_edge 1 2 100, mk_edge 2 1 100, mk_edge 2 3 100, mk_edge 3 2 100,
                     mk_edge 3 4 100, mk_edge 4 3 100]\<rparr>"

text \<open>A node with a street that returns to it, and two nodes joined by a street of
  length zero.\<close>

definition loop_graph :: graph where
  "loop_graph = \<lparr>nodes = [mk_node 1], edges = [mk_edge 1 1 50]\<rparr>"

definition zero_graph :: graph where
  "zero_graph = \<lparr>nodes = [mk_node 1, mk_node 2], edges = [mk_edge 1 2 0, mk_edge 2 1 0]\<rparr>"

text \<open>A graph on which the search from node 1 meets contradictory paths, next to an
  isolated node 3. Node 3 lies at the first point of interest of the script and node 1 at
  the second.\<close>

definition neg_graph :: graph where
  "neg_graph = \<lparr>nodes = [\<lparr>node_id = 1, node_x = 29.01, node_y = 41.045\<rparr>,
                        \<lparr>node_id = 2, node_x = 29.02, node_y = 41.05\<rparr>,
                        \<lparr>node_id = 3, node_x = 29.005, node_y = 41.0425\<rparr>],
                edges = [mk_edge 1 2 1, mk_edge 2 1 (-5)]\<rparr>"

text \<open>A chain whose second street ends 1225 metres from node 1.\<close>

definition long_chain :: graph where
  "long_chain = \<lparr>nodes = [mk_node 1, mk_node 2, mk_node 3],
                 edges = [mk_edge 1 2 1000, mk_edge 2 1 1000, mk_edge 2 3 225, mk_edge 3 2 225]\<rparr>"

text \<open>The chain cut at 150 metres from node 1.\<close>

definition chain_150 :: graph where
  "chain_150 = \<lparr>nodes = [mk_node 1, mk_node 2], edges = [mk_edge 1 2 100, mk_edge 2 1 100]\<rparr>"

text \<open>A look-up by a scan over the nodes, to put in the place of the library's index in
  the examples: it answers a node of least planar distance to the point. Where that node is
  unique, it is the answer of every nearest-node look-up.\<close>

definition sq_dist :: "real \<Rightarrow> real \<Rightarrow> node_data \<Rightarrow> real" where
  "sq_dist X Y n = (node_x n - X) * (node_x n - X) + (node_y n - Y) * (node_y n - Y)"

fun scan :: "real \<Rightarrow> real \<Rightarrow> node_data \<Rightarrow> node_data list \<Rightarrow> node_data" where
  "scan X Y best [] = best"
| "scan X Y best (n # ns) = scan X Y (if sq_dist X Y n < sq_dist X Y best then n else best) ns"

definition scan_nearest :: nearest_nodes where
  "scan_nearest G X Y =
     (case nodes G of [] \<Rightarrow> Inl ValueError | n # ns \<Rightarrow> Inr (node_id (scan X Y n ns)))"


text \<open>A drawing step to put in the place of the library's in the examples: it fails on a
  graph without edges and succeeds otherwise.\<close>

definition plot_if_edges :: "graph \<Rightarrow> error + unit" where
  "plot_if_edges g = (if edges g = [] then Inl ValueError else Inr ())"

text \<open>The two points of interest of the script, as (latitude, longitude).\<close>

definition example_pois :: "poi list" where
  "example_pois = [(41.0425, 29.005), (41.045, 29.01)]"

section \<open>Correctness of the bounded search\<close>

subsection \<open>The heap, the successors and the weight of a step\<close>




lemma in_successors:
  "u \<in> set (successors G v) \<longleftrightarrow> (\<exists>e \<in> set (edges G). edge_u e = v \<and> edge_v e = u)"
  by (auto simp: successors_def out_edges_def)


lemma min_list_in: "xs \<noteq> [] \<Longrightarrow> min_list xs \<in> set (xs::real list)"
proof -
  assume ne: "xs \<noteq> []"
  then have "min_list xs = Min (set xs)" by (rule min_list_Min)
  moreover have "Min (set xs) \<in> set xs" using ne by (intro Min_in) simp_all
  ultimately show ?thesis by simp
qed


lemma weight_attained:
  assumes "u \<in> set (successors G v)"
  shows "\<exists>e \<in> set (edges G). edge_u e = v \<and> edge_v e = u \<and> edge_length e = weight G v u"
proof -
  let ?es = "filter (\<lambda>e. edge_v e = u) (out_edges G v)"
  from assms obtain e where "e \<in> set ?es"
    by (auto simp: in_successors out_edges_def)
  then have "map edge_length ?es \<noteq> []" by (cases ?es) simp_all
  then have "weight G v u \<in> set (map edge_length ?es)"
    unfolding weight_def by (rule min_list_in)
  then show ?thesis by (auto simp: out_edges_def)
qed


subsection \<open>One relaxation, and the loop over the successors\<close>






subsection \<open>Taking the least entry from the heap\<close>





subsection \<open>The loop returns, and what it returns\<close>


text \<open>When every edge that leaves the source is longer than the cutoff, the source alone
  is settled; the lengths of the other edges do not matter.\<close>

lemma relax_all_skip:
  "\<forall>u \<in> set us. cutoff < d + weight G v u \<Longrightarrow> relax_all G cutoff v d us st = Inr st"
  by (induction us) (simp_all add: relax_def Let_def)

lemma heap_single [simp]: "heap_top [x] = x" "heap_rest [x] = []"
  by (simp_all add: heap_top_def heap_rest_def)

lemma dijkstra_source_only:
  assumes far: "\<forall>e \<in> set (edges G). edge_u e = s \<longrightarrow> cutoff < edge_length e"
  shows "dijkstra_loop G cutoff (initial_state s) = Inr [s \<mapsto> 0]"
proof -
  let ?st1 = "\<lparr>dist_of = [s \<mapsto> 0], seen_of = [s \<mapsto> 0], fringe_of = [], count_of = 1\<rparr>"
  have "\<forall>u \<in> set (successors G s). cutoff < 0 + weight G s u"
  proof
    fix u assume "u \<in> set (successors G s)"
    from weight_attained [OF this] far show "cutoff < 0 + weight G s u" by auto
  qed
  then have ra: "relax_all G cutoff s 0 (successors G s) ?st1 = Inr ?st1"
    by (rule relax_all_skip)
  have "dijkstra_loop G cutoff (initial_state s) = dijkstra_loop G cutoff ?st1"
    using ra by (subst dijkstra_loop.simps)
      (simp add: initial_state_def Let_def entry_dist_def entry_node_def)
  also have "\<dots> = Inr [s \<mapsto> 0]"
    by (subst dijkstra_loop.simps) simp
  finally show ?thesis .
qed









subsection \<open>Helper lemmas on the result of the query\<close>

lemma ego_graph_is_subgraph:
  "ego_graph G n r = Inr g \<Longrightarrow> \<exists>sp. single_source_dijkstra G n r = Inr sp \<and> g = graph_subgraph G sp"
  by (auto simp: ego_graph_def split: sum.splits)


lemma ego_graph_source_only:
  assumes n: "n \<in> set (node_ids G)"
    and far: "\<forall>e \<in> set (edges G). edge_u e = n \<longrightarrow> b < edge_length e"
  shows "ego_graph G n b = Inr (graph_subgraph G [n \<mapsto> 0])"
  using n dijkstra_source_only [OF far]
  by (simp add: ego_graph_def single_source_dijkstra_def)

lemma subgraph_single_nodes:
  "n \<in> set (node_ids G) \<Longrightarrow> set (node_ids (graph_subgraph G [n \<mapsto> d])) = {n}"
  by (auto simp: graph_subgraph_def node_ids_def)

lemma subgraph_single_edges:
  "edges (graph_subgraph G [n \<mapsto> d]) = filter (\<lambda>e. edge_u e = n \<and> edge_v e = n) (edges G)"
  by (auto simp: graph_subgraph_def intro: filter_cong)


subsection \<open>Binary64 sums: exact on whole lengths\<close>










subsection \<open>Helper lemmas on the batch routine\<close>

lemma nearest_loop_ok:
  "nearest_loop nn pois st = Inr st' \<Longrightarrow>
     na_graph st' = na_graph st \<and> service_areas st' = service_areas st \<and>
     map Inr (pois_nodes st') = map Inr (pois_nodes st) @ map (poi_node nn (na_graph st)) pois"
proof (induction pois arbitrary: st)
  case Nil
  then show ?case by simp
next
  case (Cons p pois)
  then obtain node where p: "poi_node nn (na_graph st) p = Inr node"
    and r: "nearest_loop nn pois (st\<lparr>pois_nodes := pois_nodes st @ [node]\<rparr>) = Inr st'"
    by (auto split: sum.splits)
  from Cons.IH [OF r] p show ?case by simp
qed

lemma nearest_loop_fail:
  "p \<in> set pois \<Longrightarrow> poi_node nn (na_graph st) p = Inl e \<Longrightarrow> \<exists>e'. nearest_loop nn pois st = Inl e'"
proof (induction pois arbitrary: st)
  case Nil
  then show ?case by simp
next
  case (Cons q pois)
  show ?case
  proof (cases "poi_node nn (na_graph st) q")
    case (Inl e1)
    then show ?thesis by simp
  next
    case (Inr node)
    then have "p \<noteq> q" using Cons.prems by auto
    then have "p \<in> set pois" using Cons.prems by simp
    from Cons.IH [OF this, of "st\<lparr>pois_nodes := pois_nodes st @ [node]\<rparr>"] Cons.prems(2) Inr
    show ?thesis by simp
  qed
qed

lemma set_update_subset: "set (AList.update k v al) \<subseteq> insert (k, v) (set al)"
  by (induction al) auto

lemma service_loop_ok:
  "service_loop ns st = Inr st' \<Longrightarrow>
     na_graph st' = na_graph st \<and> pois_nodes st' = pois_nodes st \<and>
     fst ` set (service_areas st') = fst ` set (service_areas st) \<union> set ns \<and>
     (distinct (map fst (service_areas st)) \<longrightarrow> distinct (map fst (service_areas st'))) \<and>
     (\<forall>(n, g) \<in> set (service_areas st').
        (n, g) \<in> set (service_areas st) \<or> ego_graph (na_graph st) n 1200 = Inr g)"
proof (induction ns arbitrary: st)
  case Nil
  then show ?case by auto
next
  case (Cons node ns)
  then obtain sg where sg: "ego_graph (na_graph st) node 1200 = Inr sg"
    and r: "service_loop ns (st\<lparr>service_areas := AList.update node sg (service_areas st)\<rparr>) = Inr st'"
    by (auto split: sum.splits)
  let ?st1 = "st\<lparr>service_areas := AList.update node sg (service_areas st)\<rparr>"
  from Cons.IH [OF r] have ih: "na_graph st' = na_graph st" "pois_nodes st' = pois_nodes st"
    "fst ` set (service_areas st') = fst ` set (AList.update node sg (service_areas st)) \<union> set ns"
    "distinct (map fst (AList.update node sg (service_areas st))) \<longrightarrow> distinct (map fst (service_areas st'))"
    "\<forall>(n, g) \<in> set (service_areas st').
        (n, g) \<in> set (AList.update node sg (service_areas st)) \<or> ego_graph (na_graph st) n 1200 = Inr g"
    by simp_all
  have keys: "fst ` set (service_areas st') = fst ` set (service_areas st) \<union> set (node # ns)"
    using ih(3) by (simp add: AList.dom_update)
  have dist: "distinct (map fst (service_areas st)) \<longrightarrow> distinct (map fst (service_areas st'))"
    using ih(4) by (simp add: AList.distinct_update)
  have upd: "(n, g) \<in> set (service_areas st) \<or> (n = node \<and> g = sg)"
    if "(n, g) \<in> set (AList.update node sg (service_areas st))" for n g
    using that set_update_subset [of node sg "service_areas st"] by auto
  have vals: "\<forall>(n, g) \<in> set (service_areas st').
        (n, g) \<in> set (service_areas st) \<or> ego_graph (na_graph st) n 1200 = Inr g"
    using ih(5) upd sg by fastforce
  show ?case using ih(1,2) keys dist vals by blast
qed

lemma service_loop_fail:
  "n \<in> set ns \<Longrightarrow> ego_graph (na_graph st) n 1200 = Inl e \<Longrightarrow> \<exists>e'. service_loop ns st = Inl e'"
proof (induction ns arbitrary: st)
  case Nil
  then show ?case by simp
next
  case (Cons node ns)
  show ?case
  proof (cases "ego_graph (na_graph st) node 1200")
    case (Inl e1)
    then show ?thesis by simp
  next
    case (Inr sg)
    then have "n \<noteq> node" using Cons.prems by auto
    then have "n \<in> set ns" using Cons.prems by simp
    from Cons.IH [OF this, of "st\<lparr>service_areas := AList.update node sg (service_areas st)\<rparr>"]
      Cons.prems(2) Inr
    show ?thesis by simp
  qed
qed

lemma run_ok:
  assumes "calculate_accessibility_run nn G pois = Inr st"
  shows "na_graph st = G"
    and "map Inr (pois_nodes st) = map (poi_node nn G) pois"
    and "fst ` set (service_areas st) = set (pois_nodes st)"
    and "distinct (map fst (service_areas st))"
    and "\<forall>(n, g) \<in> set (service_areas st). ego_graph G n 1200 = Inr g"
proof -
  let ?st0 = "\<lparr>na_graph = G, pois_nodes = [], service_areas = []\<rparr>"
  from assms obtain st1 where l1: "nearest_loop nn pois ?st0 = Inr st1"
    and l2: "service_loop (pois_nodes st1) st1 = Inr st"
    by (auto simp: calculate_accessibility_run_def split: sum.splits)
  from nearest_loop_ok [OF l1] have a: "na_graph st1 = G" "service_areas st1 = []"
    "map Inr (pois_nodes st1) = map (poi_node nn G) pois" by simp_all
  from service_loop_ok [OF l2] a
  show "na_graph st = G" "map Inr (pois_nodes st) = map (poi_node nn G) pois"
    "fst ` set (service_areas st) = set (pois_nodes st)"
    "distinct (map fst (service_areas st))"
    "\<forall>(n, g) \<in> set (service_areas st). ego_graph G n 1200 = Inr g"
    by auto
qed

section \<open>The claims\<close>

text \<open>
  C1 (as amended). The result of the reachability query is the subgraph induced by the
  reached nodes: it holds exactly the edges of the graph whose two endpoints are both among
  its nodes. An edge with exactly one endpoint reached is left out altogether, and no
  partial length is computed for it.
\<close>

theorem ego_graph_induced:
  assumes "wf_graph G" and "ego_graph G n r = Inr g"
  shows "set (node_ids g) \<subseteq> set (node_ids G) \<and>
         edges g = filter (\<lambda>e. edge_u e \<in> set (node_ids g) \<and> edge_v e \<in> set (node_ids g)) (edges G)"
proof -
  from ego_graph_is_subgraph [OF assms(2)] obtain sp where g: "g = graph_subgraph G sp" by blast
  have ids: "set (node_ids g) = {v \<in> set (node_ids G). sp v \<noteq> None}"
    by (auto simp: g graph_subgraph_def node_ids_def)
  have "(sp (edge_u e) \<noteq> None \<and> sp (edge_v e) \<noteq> None) =
        (edge_u e \<in> set (node_ids g) \<and> edge_v e \<in> set (node_ids g))"
    if "e \<in> set (edges G)" for e
    using assms(1) that ids by (auto simp: wf_graph_def)
  then have "filter (\<lambda>e. sp (edge_u e) \<noteq> None \<and> sp (edge_v e) \<noteq> None) (edges G) =
        filter (\<lambda>e. edge_u e \<in> set (node_ids g) \<and> edge_v e \<in> set (node_ids g)) (edges G)"
    by (intro filter_cong) simp_all
  then have "edges g = filter (\<lambda>e. edge_u e \<in> set (node_ids g) \<and> edge_v e \<in> set (node_ids g)) (edges G)"
    by (simp add: g graph_subgraph_def)
  with ids show ?thesis by blast
qed

theorem ego_graph_induced_witness:
  "wf_graph chain \<and> ego_graph chain 1 150 = Inr chain_150 \<and>
   set (node_ids chain_150) \<subseteq> set (node_ids chain) \<and>
   edges chain_150 =
     filter (\<lambda>e. edge_u e \<in> set (node_ids chain_150) \<and> edge_v e \<in> set (node_ids chain_150))
       (edges chain)"
proof -
  have h1: "wf_graph chain" by code_simp
  have h2: "ego_graph chain 1 150 = Inr chain_150" by code_simp
  from ego_graph_induced [OF h1 h2] h1 h2 show ?thesis by blast
qed

text \<open>
  C1, as stated, fails on the chain A--B--C--D: the query from A with budget 150 returns
  the nodes A and B and the street A--B, and nothing of the street B--C.
\<close>

theorem chain_boundary_counterexample:
  "ego_graph chain 1 150 =
     Inr \<lparr>nodes = [mk_node 1, mk_node 2], edges = [mk_edge 1 2 100, mk_edge 2 1 100]\<rparr>"
  by code_simp

text \<open>
  C3 (as amended). When every edge that leaves the node \<open>n\<close> is longer than the budget and
  none of them returns to \<open>n\<close>, the query returns the node set \<open>{n}\<close> and no edge. This
  is the case for budget 0 when the edges leaving \<open>n\<close> have positive length, and for an
  isolated node under any budget.
\<close>

theorem zero_budget_source_only:
  assumes "n \<in> set (node_ids G)"
    and "\<forall>e \<in> set (edges G). edge_u e = n \<longrightarrow> b < edge_length e \<and> edge_v e \<noteq> n"
  shows "\<exists>g. ego_graph G n b = Inr g \<and> set (node_ids g) = {n} \<and> edges g = []"
proof -
  have "\<forall>e \<in> set (edges G). edge_u e = n \<longrightarrow> b < edge_length e" using assms(2) by blast
  from ego_graph_source_only [OF assms(1) this]
  have r: "ego_graph G n b = Inr (graph_subgraph G [n \<mapsto> 0])" .
  have "filter (\<lambda>e. edge_u e = n \<and> edge_v e = n) (edges G) = []"
    using assms(2) by (auto simp: filter_empty_conv)
  then have "edges (graph_subgraph G [n \<mapsto> 0]) = []"
    by (simp add: subgraph_single_edges)
  with r subgraph_single_nodes [OF assms(1)] show ?thesis by blast
qed

theorem zero_budget_source_only_witness:
  "1 \<in> set (node_ids chain) \<and>
   (\<exists>g. ego_graph chain 1 0 = Inr g \<and> set (node_ids g) = {1} \<and> edges g = [])"
proof -
  have h1: "1 \<in> set (node_ids chain)" by code_simp
  have h2: "\<forall>e \<in> set (edges chain). edge_u e = 1 \<longrightarrow> 0 < edge_length e \<and> edge_v e \<noteq> 1"
    by code_simp
  from zero_budget_source_only [OF h1 h2] h1 show ?thesis by blast
qed

text \<open>
  C3, as stated, fails where a street returns to its node (the edge is part of the
  result) and where a street has length zero (its far end is reached with budget 0).
\<close>

theorem zero_budget_counterexample:
  "ego_graph loop_graph 1 0 = Inr \<lparr>nodes = [mk_node 1], edges = [mk_edge 1 1 50]\<rparr> \<and>
   ego_graph zero_graph 1 0 =
     Inr \<lparr>nodes = [mk_node 1, mk_node 2], edges = [mk_edge 1 2 0, mk_edge 2 1 0]\<rparr>"
  by code_simp






text \<open>
  C6 (as amended). A negative budget is not rejected. On a graph with nonnegative lengths
  the query from a node \<open>n\<close> of the graph with a negative budget returns the subgraph
  induced by \<open>n\<close> alone: the node \<open>n\<close> and the edges from \<open>n\<close> to itself.
\<close>

theorem negative_budget_source_only:
  assumes "nonneg_lengths G" and "n \<in> set (node_ids G)" and "b < 0"
  shows "\<exists>g. ego_graph G n b = Inr g \<and> set (node_ids g) = {n} \<and>
           edges g = filter (\<lambda>e. edge_u e = n \<and> edge_v e = n) (edges G)"
proof -
  have "\<forall>e \<in> set (edges G). edge_u e = n \<longrightarrow> b < edge_length e"
    using assms(1,3) by (auto simp: nonneg_lengths_def)
  from ego_graph_source_only [OF assms(2) this]
  have "ego_graph G n b = Inr (graph_subgraph G [n \<mapsto> 0])" .
  with subgraph_single_nodes [OF assms(2)] subgraph_single_edges show ?thesis by blast
qed

theorem negative_budget_source_only_witness:
  "nonneg_lengths chain \<and> 1 \<in> set (node_ids chain) \<and> (-1::real) < 0 \<and>
   (\<exists>g. ego_graph chain 1 (-1) = Inr g \<and> set (node_ids g) = {1} \<and>
      edges g = filter (\<lambda>e. edge_u e = 1 \<and> edge_v e = 1) (edges chain))"
proof -
  have h1: "nonneg_lengths chain" by code_simp
  have h2: "1 \<in> set (node_ids chain)" by code_simp
  have h3: "(-1::real) < 0" by simp
  from negative_budget_source_only [OF h1 h2 h3] h1 h2 show ?thesis by simp
qed

text \<open>
  C6, as stated, fails on the chain: the query from A with budget \<open>-1\<close> returns a result,
  the node A alone.
\<close>

theorem negative_budget_counterexample:
  "ego_graph chain 1 (-1) = Inr \<lparr>nodes = [mk_node 1], edges = []\<rparr>"
  by code_simp

text \<open>
  C7 (as amended). The batch routine has no partial success: when the look-up or the
  ego-network query of any one point of interest fails, the whole call ends with an error
  and returns no service area, neither those already computed nor those of the remaining
  points.
\<close>

theorem batch_fails_as_a_whole:
  assumes "p \<in> set pois"
    and "poi_node nn G p = Inl e \<or> (\<exists>n. poi_node nn G p = Inr n \<and> ego_graph G n 1200 = Inl e)"
  shows "\<exists>e'. network_calculate_accessibility nn G pois = Inl e'"
proof -
  let ?st0 = "\<lparr>na_graph = G, pois_nodes = [], service_areas = []\<rparr>"
  show ?thesis
  proof (cases "nearest_loop nn pois ?st0")
    case (Inl e1)
    then show ?thesis
      by (simp add: network_calculate_accessibility_def calculate_accessibility_run_def)
  next
    case (Inr st1)
    from nearest_loop_ok [OF Inr] have g1: "na_graph st1 = G"
      and ns: "map Inr (pois_nodes st1) = map (poi_node nn G) pois" by simp_all
    have no_fail: "poi_node nn G p \<noteq> Inl e"
      using nearest_loop_fail [OF assms(1), of nn ?st0 e] Inr by auto
    with assms(2) obtain n where n: "poi_node nn G p = Inr n" "ego_graph G n 1200 = Inl e"
      by blast
    have "Inr n \<in> set (map (poi_node nn G) pois)" using assms(1) n(1) by force
    then have "Inr n \<in> set (map Inr (pois_nodes st1) :: (error + node) list)" using ns by simp
    then have "n \<in> set (pois_nodes st1)" by auto
    from service_loop_fail [OF this, of st1 e] n(2) g1
    obtain e' where "service_loop (pois_nodes st1) st1 = Inl e'" by auto
    then show ?thesis using Inr
      by (simp add: network_calculate_accessibility_def calculate_accessibility_run_def)
  qed
qed

theorem batch_fails_as_a_whole_witness:
  "(41.045, 29.01) \<in> set example_pois \<and>
   poi_node scan_nearest neg_graph (41.045, 29.01) = Inr 1 \<and>
   ego_graph neg_graph 1 1200 = Inl ValueError \<and>
   (\<exists>e'. network_calculate_accessibility scan_nearest neg_graph example_pois = Inl e')"
proof -
  have h1: "(41.045, 29.01) \<in> set example_pois" by (simp add: example_pois_def)
  have h2: "poi_node scan_nearest neg_graph (41.045, 29.01) = Inr 1" by code_simp
  have h3: "ego_graph neg_graph 1 1200 = Inl ValueError" by code_simp
  have "poi_node scan_nearest neg_graph (41.045, 29.01) = Inl ValueError \<or>
        (\<exists>n. poi_node scan_nearest neg_graph (41.045, 29.01) = Inr n \<and>
             ego_graph neg_graph n 1200 = Inl ValueError)"
    using h2 h3 by blast
  from batch_fails_as_a_whole [OF h1 this] h1 h2 h3 show ?thesis by blast
qed

text \<open>
  C7, as stated, fails on a batch of two points of interest: the service area of the first
  (node 3) is computed, the query of the second (node 1) raises, and the call returns the
  error alone.
\<close>

theorem batch_abort_counterexample:
  "map (poi_node scan_nearest neg_graph) example_pois = [Inr 3, Inr 1] \<and>
   ego_graph neg_graph 3 1200 =
     Inr \<lparr>nodes = [\<lparr>node_id = 3, node_x = 29.005, node_y = 41.0425\<rparr>], edges = []\<rparr> \<and>
   ego_graph neg_graph 1 1200 = Inl ValueError \<and>
   network_calculate_accessibility scan_nearest neg_graph example_pois = Inl ValueError"
  by code_simp

text \<open>
  C9. The service areas are keyed by graph node: the keys of the returned dictionary are
  pairwise different and are exactly the nearest nodes of the points of interest, so there
  are at most as many service areas as points, and strictly fewer as soon as two points
  have the same nearest node.
\<close>

theorem service_areas_keyed_by_node:
  assumes "network_calculate_accessibility nn G pois = Inr sa"
  shows "distinct (map fst sa) \<and>
         Inr ` set (map fst sa) = set (map (poi_node nn G) pois) \<and>
         length sa \<le> length pois \<and>
         (\<not> distinct (map (poi_node nn G) pois) \<longrightarrow> length sa < length pois)"
proof -
  from assms obtain st where run: "calculate_accessibility_run nn G pois = Inr st"
    and sa: "sa = service_areas st"
    by (auto simp: network_calculate_accessibility_def split: sum.splits)
  note ok = run_ok [OF run]
  have d: "distinct (map fst sa)" using ok(4) sa by simp
  have keys: "set (map fst sa) = set (pois_nodes st)" using ok(3) sa by simp
  have "Inr ` set (pois_nodes st) = set (map (poi_node nn G) pois)"
    using ok(2) by (metis set_map)
  with keys have img: "Inr ` set (map fst sa) = set (map (poi_node nn G) pois)" by simp
  have "length sa = card (set (map fst sa))"
    using d distinct_card [of "map fst sa"] by simp
  also have "\<dots> = card (Inr ` set (map fst sa) :: (error + node) set)"
    by (simp add: card_image)
  also have "\<dots> = card (set (map (poi_node nn G) pois))" using img by simp
  finally have len: "length sa = card (set (map (poi_node nn G) pois))" .
  have le: "length sa \<le> length pois"
    using len card_length [of "map (poi_node nn G) pois"] by simp
  have lt: "length sa < length pois" if "\<not> distinct (map (poi_node nn G) pois)"
  proof -
    have "card (set (map (poi_node nn G) pois)) \<noteq> length (map (poi_node nn G) pois)"
      using that card_distinct by blast
    then show ?thesis using len le by simp
  qed
  from d img le lt show ?thesis by blast
qed

theorem service_areas_keyed_by_node_witness:
  "network_calculate_accessibility scan_nearest long_chain example_pois =
     Inr [(1, \<lparr>nodes = [mk_node 1, mk_node 2], edges = [mk_edge 1 2 1000, mk_edge 2 1 1000]\<rparr>)] \<and>
   length [(1::node, \<lparr>nodes = [mk_node 1, mk_node 2],
                       edges = [mk_edge 1 2 1000, mk_edge 2 1 1000]\<rparr>)] < length example_pois"
proof -
  let ?sa = "[(1::node, \<lparr>nodes = [mk_node 1, mk_node 2],
                       edges = [mk_edge 1 2 1000, mk_edge 2 1 1000]\<rparr>)]"
  have h: "network_calculate_accessibility scan_nearest long_chain example_pois = Inr ?sa"
    by code_simp
  have nd: "\<not> distinct (map (poi_node scan_nearest long_chain) example_pois)"
    by code_simp
  from service_areas_keyed_by_node [OF h] nd have "length ?sa < length example_pois" by blast
  with h show ?thesis by blast
qed

text \<open>
  C10. Neither routine takes a budget from its caller. The routine of
  \<^verbatim>\<open>accessibility_analysis\<close> queries with the radius \<open>5 \<times> 0.25 \<times> 1000 = 1250\<close> metres,
  the routine of \<^verbatim>\<open>network_analysis\<close> with 1200 metres for every point of interest, and
  the two radii differ.
\<close>

theorem fixed_budgets:
  assumes "network_calculate_accessibility nn G pois = Inr sa"
  shows "max_distance * 1000 = 1250 \<and>
         accessibility_calculate_accessibility nn' project_graph plot_and_save graph =
           (case nn' (project_graph graph) 29.007149 41.041224 of
              Inl e \<Rightarrow> Inl e
            | Inr center_node \<Rightarrow>
                (case ego_graph (project_graph graph) center_node 1250 of
                   Inl e \<Rightarrow> Inl e
                 | Inr subgraph \<Rightarrow>
                     (case plot_and_save subgraph of
                        Inl e \<Rightarrow> Inl e
                      | Inr done \<Rightarrow>
                          Inr \<lparr>area_covered_km2 = None,
                               nodes_in_range = length (nodes subgraph),
                               edges_in_range = length (edges subgraph)\<rparr>))) \<and>
         (\<forall>(n, g) \<in> set sa. ego_graph G n 1200 = Inr g) \<and>
         max_distance * 1000 \<noteq> 1200"
proof -
  have r: "max_distance * 1000 = 1250" by (simp add: max_distance_def walking_speed_def)
  have a: "accessibility_calculate_accessibility nn' project_graph plot_and_save graph =
           (case nn' (project_graph graph) 29.007149 41.041224 of
              Inl e \<Rightarrow> Inl e
            | Inr center_node \<Rightarrow>
                (case ego_graph (project_graph graph) center_node 1250 of
                   Inl e \<Rightarrow> Inl e
                 | Inr subgraph \<Rightarrow>
                     (case plot_and_save subgraph of
                        Inl e \<Rightarrow> Inl e
                      | Inr done \<Rightarrow>
                          Inr \<lparr>area_covered_km2 = None,
                               nodes_in_range = length (nodes subgraph),
                               edges_in_range = length (edges subgraph)\<rparr>)))"
    unfolding accessibility_calculate_accessibility_def r by (simp add: center_point_def Let_def)
  from assms obtain st where run: "calculate_accessibility_run nn G pois = Inr st"
    and sa: "sa = service_areas st"
    by (auto simp: network_calculate_accessibility_def split: sum.splits)
  from run_ok(5) [OF run] sa have n: "\<forall>(n, g) \<in> set sa. ego_graph G n 1200 = Inr g" by simp
  from r a n show ?thesis by simp
qed

theorem fixed_budgets_witness:
  "network_calculate_accessibility scan_nearest long_chain example_pois =
     Inr [(1, \<lparr>nodes = [mk_node 1, mk_node 2], edges = [mk_edge 1 2 1000, mk_edge 2 1 1000]\<rparr>)] \<and>
   ego_graph long_chain 1 1200 =
     Inr \<lparr>nodes = [mk_node 1, mk_node 2], edges = [mk_edge 1 2 1000, mk_edge 2 1 1000]\<rparr> \<and>
   accessibility_calculate_accessibility scan_nearest id plot_if_edges long_chain =
     Inr \<lparr>area_covered_km2 = None, nodes_in_range = 3, edges_in_range = 4\<rparr>"
proof -
  let ?sg = "\<lparr>nodes = [mk_node 1, mk_node 2], edges = [mk_edge 1 2 1000, mk_edge 2 1 1000]\<rparr>"
  have h: "network_calculate_accessibility scan_nearest long_chain example_pois = Inr [(1, ?sg)]"
    by code_simp
  have c: "scan_nearest long_chain 29.007149 41.041224 = Inr 1" by code_simp
  have e: "ego_graph long_chain 1 1250 = Inr long_chain" by code_simp
  have pl: "plot_if_edges long_chain = Inr ()" by code_simp
  have n: "length (nodes long_chain) = 3" "length (edges long_chain) = 4"
    by (simp_all add: long_chain_def)
  note fb = fixed_budgets [OF h, of scan_nearest id plot_if_edges long_chain]
  from fb have q: "\<forall>(n, g) \<in> set [(1, ?sg)]. ego_graph long_chain n 1200 = Inr g" by blast
  then have s: "ego_graph long_chain 1 1200 = Inr ?sg" by simp
  from fb have "accessibility_calculate_accessibility scan_nearest id plot_if_edges long_chain =
           (case scan_nearest (id long_chain) 29.007149 41.041224 of
              Inl e \<Rightarrow> Inl e
            | Inr center_node \<Rightarrow>
                (case ego_graph (id long_chain) center_node 1250 of
                   Inl e \<Rightarrow> Inl e
                 | Inr subgraph \<Rightarrow>
                     (case plot_if_edges subgraph of
                        Inl e \<Rightarrow> Inl e
                      | Inr done \<Rightarrow>
                          Inr \<lparr>area_covered_km2 = None,
                               nodes_in_range = length (nodes subgraph),
                               edges_in_range = length (edges subgraph)\<rparr>)))"
    by blast
  then have "accessibility_calculate_accessibility scan_nearest id plot_if_edges long_chain =
     Inr \<lparr>area_covered_km2 = None, nodes_in_range = 3, edges_in_range = 4\<rparr>"
    by (simp only: id_apply c e pl n sum.case)
  with h s show ?thesis by blast
qed

end
